theory Spec2Isabelle
  imports Main "HOL-Library.Sublist" "HOL-Library.Multiset"
begin

section \<open>The dataset\<close>

text \<open>
  The program keeps one pandas table \<open>df\<close>, read once from \<open>TRIALDB.csv\<close>, and answers
  every request from it. A cell of the table is an integer, a text or the missing-value
  marker; text is ASCII here (one \<open>char\<close> per character), and floating-point cells are
  not modelled. A column has a label and a dtype: \<open>ObjectDtype\<close> for a column that holds
  text (also the dtype of every column of a table read from a file with a header and no
  data rows), \<open>NumericDtype\<close> for a column of numbers or of blanks only. A row gives
  each column label its cell.
\<close>

datatype cell = IntV int | StrV string | NaN

datatype dtype = ObjectDtype | NumericDtype

type_synonym row = "string \<Rightarrow> cell"

type_synonym series = "dtype \<times> cell list"

record dataframe =
  columns :: "(string \<times> dtype) list"
  rows :: "row list"

text \<open>Every exception the handlers can raise, as a value.\<close>

datatype error =
    KeyError string
  | AttributeError
  | PatternNotModelled
  | HTTPException nat string
  | RequestValidationError

text \<open>
  The status the framework answers with: the handler's own \<open>HTTPException\<close> carries
  its status, a rejected parameter is 422, any other exception is 500.
\<close>

fun status_code :: "error \<Rightarrow> nat" where
  "status_code (HTTPException s d) = s"
| "status_code RequestValidationError = 422"
| "status_code e = 500"

subsection \<open>Start-up\<close>

text \<open>
  \<^verbatim>\<open>
  try:
      df = pd.read_csv('TRIALDB.csv')
      df.columns = df.columns.str.strip()
  except FileNotFoundError:
      df = pd.DataFrame()
  \<close>
  Reading and parsing the file is outside the model: the argument is \<open>Some t\<close> for the
  table read (labels already trimmed) and \<open>None\<close> for \<open>FileNotFoundError\<close>. The table
  \<open>pd.DataFrame()\<close> has no rows and no columns.
\<close>

definition DataFrame_empty :: dataframe where
  "DataFrame_empty = \<lparr>columns = [], rows = []\<rparr>"

definition load_df :: "dataframe option \<Rightarrow> dataframe" where
  "load_df f = (case f of Some t \<Rightarrow> t | None \<Rightarrow> DataFrame_empty)"

subsection \<open>Table operations\<close>

text \<open>\<open>df[c]\<close>: the column labelled \<open>c\<close>, or \<open>KeyError\<close> when there is none.\<close>

definition getitem :: "dataframe \<Rightarrow> string \<Rightarrow> error + series" where
  "getitem df c =
     (case map_of (columns df) c of
        None \<Rightarrow> Inl (KeyError c)
      | Some dt \<Rightarrow> Inr (dt, map (\<lambda>r. r c) (rows df)))"

text \<open>\<open>df[mask]\<close>: the rows at which the mask is true, in their order.\<close>

definition bool_index :: "dataframe \<Rightarrow> bool list \<Rightarrow> dataframe" where
  "bool_index df m = df\<lparr>rows := map fst (filter snd (zip (rows df) m))\<rparr>"

text \<open>
  \<open>df.iloc[start:stop]\<close>: Python's slice with step 1. A negative bound counts from the
  end, and both bounds are clipped to the length.
\<close>

definition slice_bound :: "int \<Rightarrow> nat \<Rightarrow> nat" where
  "slice_bound i n = (if i < 0 then nat (max 0 (int n + i)) else min (nat i) n)"

definition slice :: "int \<Rightarrow> int \<Rightarrow> 'a list \<Rightarrow> 'a list" where
  "slice start stop xs =
     (let s = slice_bound start (length xs); e = slice_bound stop (length xs)
      in take (e - s) (drop s xs))"

definition iloc :: "dataframe \<Rightarrow> int \<Rightarrow> int \<Rightarrow> dataframe" where
  "iloc df start stop = df\<lparr>rows := slice start stop (rows df)\<rparr>"

text \<open>
  \<open>df.to_dict(orient="records")\<close>: one dictionary per row, from each column label to
  the row's cell, the labels in column order.
\<close>

type_synonym record_dict = "(string \<times> cell) list"

definition to_dict :: "(string \<times> dtype) list \<Rightarrow> row \<Rightarrow> record_dict" where
  "to_dict cols r = map (\<lambda>(c, dt). (c, r c)) cols"

definition to_dict_records :: "dataframe \<Rightarrow> record_dict list" where
  "to_dict_records df = map (to_dict (columns df)) (rows df)"

text \<open>
  \<open>Series.unique()\<close>: a hash table of the values seen, the values kept in order of
  first appearance; the missing marker is a value like any other and equal to itself.
  \<open>Series.nunique()\<close> (with its default \<open>dropna=True\<close>) counts the unique values that
  are not missing.
\<close>

fun unique_from :: "cell list \<Rightarrow> cell list \<Rightarrow> cell list" where
  "unique_from seen [] = []"
| "unique_from seen (x # xs) =
     (if x \<in> set seen then unique_from seen xs else x # unique_from (x # seen) xs)"

definition unique :: "cell list \<Rightarrow> cell list" where
  "unique xs = unique_from [] xs"

definition nunique :: "cell list \<Rightarrow> nat" where
  "nunique xs = length (filter (\<lambda>c. c \<noteq> NaN) (unique xs))"

section \<open>Regular expressions\<close>

text \<open>
  \<open>Series.str.contains(pat, case=False, na=False)\<close> leaves \<open>regex\<close> at its default
  \<open>True\<close>: \<open>pat\<close> is compiled with \<open>re.compile(pat, re.IGNORECASE)\<close> and searched in
  each text. The model covers the patterns built from ordinary characters, the dot,
  and the classes \<open>\d\<close> and \<open>\D\<close>; on any other pattern \<open>re_compile\<close> answers
  \<open>PatternNotModelled\<close> (Python compiles it to something richer, or raises
  \<open>re.error\<close>).
\<close>

datatype re_atom = Lit char | AnyChar | Digit | NonDigit

definition BACKSLASH :: char where
  "BACKSLASH = CHR 0x5C"

text \<open>The characters \<open>sre_parse\<close> treats specially: \<open>. \ [ { ( ) * + ? ^ $ |\<close>.\<close>

definition SPECIAL_CHARS :: "char list" where
  "SPECIAL_CHARS = BACKSLASH # ''.[{()*+?^$|''"

fun sre_parse :: "string \<Rightarrow> error + re_atom list" where
  "sre_parse [] = Inr []"
| "sre_parse (c # cs) =
     (if c = CHR ''.'' then map_sum id ((#) AnyChar) (sre_parse cs)
      else if c = BACKSLASH then
        (case cs of
           [] \<Rightarrow> Inl PatternNotModelled
         | e # es \<Rightarrow>
             if e = CHR ''d'' then map_sum id ((#) Digit) (sre_parse es)
             else if e = CHR ''D'' then map_sum id ((#) NonDigit) (sre_parse es)
             else Inl PatternNotModelled)
      else if c \<in> set SPECIAL_CHARS then Inl PatternNotModelled
      else map_sum id ((#) (Lit c)) (sre_parse cs))"

definition re_compile :: "string \<Rightarrow> error + re_atom list" where
  "re_compile pat = sre_parse pat"

definition ascii_uppercase :: string where
  "ascii_uppercase = ''ABCDEFGHIJKLMNOPQRSTUVWXYZ''"

definition ascii_lowercase :: string where
  "ascii_lowercase = ''abcdefghijklmnopqrstuvwxyz''"

definition lower :: "char \<Rightarrow> char" where
  "lower c = (case map_of (zip ascii_uppercase ascii_lowercase) c of Some l \<Rightarrow> l | None \<Rightarrow> c)"


definition isdigit :: "char \<Rightarrow> bool" where
  "isdigit c = (c \<in> set ''0123456789'')"

text \<open>One atom against one character, ignoring case; the dot stops at a newline.\<close>

fun atom_matches :: "re_atom \<Rightarrow> char \<Rightarrow> bool" where
  "atom_matches (Lit c) d = (lower c = lower d)"
| "atom_matches AnyChar d = (d \<noteq> CHR 0x0A)"
| "atom_matches Digit d = isdigit d"
| "atom_matches NonDigit d = (\<not> isdigit d)"

fun match_here :: "re_atom list \<Rightarrow> string \<Rightarrow> bool" where
  "match_here [] s = True"
| "match_here (a # as) [] = False"
| "match_here (a # as) (d # ds) = (atom_matches a d \<and> match_here as ds)"

text \<open>\<open>pattern.search(s) is not None\<close>: a match starting at some position of \<open>s\<close>.\<close>

fun re_search :: "re_atom list \<Rightarrow> string \<Rightarrow> bool" where
  "re_search re [] = match_here re []"
| "re_search re (d # ds) = (match_here re (d # ds) \<or> re_search re ds)"

text \<open>
  The accessor \<open>.str\<close> raises \<open>AttributeError\<close> on a numeric column; \<open>contains\<close>
  compiles the pattern once, then maps the search over the cells, answering \<open>na=False\<close>
  at every cell that is not a text.
\<close>

fun contains_cell :: "re_atom list \<Rightarrow> cell \<Rightarrow> bool" where
  "contains_cell re (StrV s) = re_search re s"
| "contains_cell re c = False"

definition str_contains :: "series \<Rightarrow> string \<Rightarrow> error + bool list" where
  "str_contains s pat =
     (case fst s of
        NumericDtype \<Rightarrow> Inl AttributeError
      | ObjectDtype \<Rightarrow>
          (case re_compile pat of
             Inl e \<Rightarrow> Inl e
           | Inr re \<Rightarrow> Inr (map (contains_cell re) (snd s))))"

section \<open>The handlers\<close>

subsection \<open>Parameters at the boundary\<close>

text \<open>
  An \<open>int\<close> parameter as the framework hands it over: left out of the request, present
  but not an integer, or an integer. \<open>Query(default, ge=..., le=...)\<close> supplies the
  default, and rejects a malformed or out-of-range value before the handler's body runs.
\<close>

datatype raw_int = Omitted | Malformed | Given int

definition Query :: "int \<Rightarrow> int \<Rightarrow> int option \<Rightarrow> raw_int \<Rightarrow> error + int" where
  "Query dflt ge le q =
     (case q of
        Omitted \<Rightarrow> Inr dflt
      | Malformed \<Rightarrow> Inl RequestValidationError
      | Given n \<Rightarrow>
          if ge \<le> n \<and> (case le of None \<Rightarrow> True | Some u \<Rightarrow> n \<le> u) then Inr n
          else Inl RequestValidationError)"

text \<open>A path parameter annotated \<open>int\<close>: always present, rejected when malformed.\<close>

definition Path_int :: "raw_int \<Rightarrow> error + int" where
  "Path_int q = (case q of Given n \<Rightarrow> Inr n | _ \<Rightarrow> Inl RequestValidationError)"

subsection \<open>GET /records\<close>

text \<open>
  \<^verbatim>\<open>
  if insname:
      filtered_df = filtered_df[filtered_df['INSNAME'].str.contains(insname, case=False, na=False)]
  \<close>
  The filter is skipped when the parameter is \<open>None\<close> or the empty string.
\<close>

definition filter_contains :: "dataframe \<Rightarrow> string \<Rightarrow> string option \<Rightarrow> error + dataframe" where
  "filter_contains df col pat =
     (case pat of
        None \<Rightarrow> Inr df
      | Some p \<Rightarrow>
          if p = [] then Inr df
          else
            (case getitem df col of
               Inl e \<Rightarrow> Inl e
             | Inr s \<Rightarrow>
                 (case str_contains s p of
                    Inl e \<Rightarrow> Inl e
                  | Inr m \<Rightarrow> Inr (bool_index df m))))"

record records_response =
  page :: int
  size_n :: nat
  total_filtered :: nat
  data :: "record_dict list"

definition list_records ::
  "dataframe \<Rightarrow> int \<Rightarrow> int \<Rightarrow> string option \<Rightarrow> string option \<Rightarrow> error + records_response" where
  "list_records df pg sz insname creddesc =
     (case filter_contains df ''INSNAME'' insname of
        Inl e \<Rightarrow> Inl e
      | Inr f1 \<Rightarrow>
          (case filter_contains f1 ''CREDDESC'' creddesc of
             Inl e \<Rightarrow> Inl e
           | Inr filtered_df \<Rightarrow>
               (let start = (pg - 1) * sz;
                    stop = start + sz;
                    results = to_dict_records (iloc filtered_df start stop)
                in Inr \<lparr>page = pg, size_n = length results,
                         total_filtered = length (rows filtered_df), data = results\<rparr>)))"

text \<open>
  The handler with its signature: \<open>page: int = Query(1, ge=1)\<close>,
  \<open>size: int = Query(10, ge=1, le=100)\<close>; \<open>list_records\<close> is its body.
\<close>

definition get_records ::
  "dataframe \<Rightarrow> raw_int \<Rightarrow> raw_int \<Rightarrow> string option \<Rightarrow> string option \<Rightarrow> error + records_response" where
  "get_records df p s insname creddesc =
     (case Query 1 1 None p of
        Inl e \<Rightarrow> Inl e
      | Inr pg \<Rightarrow>
          (case Query 10 1 (Some 100) s of
             Inl e \<Rightarrow> Inl e
           | Inr sz \<Rightarrow> list_records df pg sz insname creddesc))"

subsection \<open>GET /records/{insid}\<close>

text \<open>Python's \<open>str\<close> of an integer, for the message of the 404.\<close>

definition digit_char :: "nat \<Rightarrow> char" where
  "digit_char d = ''0123456789'' ! d"

function str_nat :: "nat \<Rightarrow> string" where
  "str_nat n = (if n < 10 then [digit_char n] else str_nat (n div 10) @ [digit_char (n mod 10)])"
  by pat_completeness auto
termination
  by (relation "measure id") auto

definition str_int :: "int \<Rightarrow> string" where
  "str_int i = (if i < 0 then CHR ''-'' # str_nat (nat (- i)) else str_nat (nat i))"

record insid_response =
  insid :: int
  count_n :: nat
  data_i :: "record_dict list"

definition records_by_insid :: "dataframe \<Rightarrow> int \<Rightarrow> error + insid_response" where
  "records_by_insid df i =
     (case getitem df ''INSID'' of
        Inl e \<Rightarrow> Inl e
      | Inr s \<Rightarrow>
          (let results = to_dict_records (bool_index df (map (\<lambda>c. c = IntV i) (snd s)))
           in if List.null results
              then Inl (HTTPException 404 (''No records found for INSID '' @ str_int i))
              else Inr \<lparr>insid = i, count_n = length results, data_i = results\<rparr>))"

definition get_records_by_insid :: "dataframe \<Rightarrow> raw_int \<Rightarrow> error + insid_response" where
  "get_records_by_insid df q =
     (case Path_int q of Inl e \<Rightarrow> Inl e | Inr i \<Rightarrow> records_by_insid df i)"

subsection \<open>GET /stats\<close>

record stats_response =
  unique_institutions :: nat
  unique_credentials :: nat
  credential_levels :: "cell list"

definition get_stats :: "dataframe \<Rightarrow> error + stats_response" where
  "get_stats df =
     (case getitem df ''INSNAME'' of
        Inl e \<Rightarrow> Inl e
      | Inr a \<Rightarrow>
          (case getitem df ''CREDDESC'' of
             Inl e \<Rightarrow> Inl e
           | Inr b \<Rightarrow>
               (case getitem df ''CREDLEV'' of
                  Inl e \<Rightarrow> Inl e
                | Inr c \<Rightarrow>
                    Inr \<lparr>unique_institutions = nunique (snd a),
                         unique_credentials = nunique (snd b),
                         credential_levels = unique (snd c)\<rparr>)))"

section \<open>Vocabulary of the properties\<close>

text \<open>The parameters the boundary lets through.\<close>

definition page_ok :: "raw_int \<Rightarrow> bool" where
  "page_ok p = (case p of Omitted \<Rightarrow> True | Malformed \<Rightarrow> False | Given n \<Rightarrow> 1 \<le> n)"

definition size_ok :: "raw_int \<Rightarrow> bool" where
  "size_ok s = (case s of Omitted \<Rightarrow> True | Malformed \<Rightarrow> False | Given n \<Rightarrow> 1 \<le> n \<and> n \<le> 100)"

text \<open>
  The rows a filter parameter keeps: all of them when the parameter is unset or empty,
  else those whose cell in the column is a text in which the compiled pattern is found.
\<close>

definition keeps :: "string \<Rightarrow> string option \<Rightarrow> row \<Rightarrow> bool" where
  "keeps col pat r =
     (case pat of
        None \<Rightarrow> True
      | Some p \<Rightarrow>
          p = [] \<or> (case re_compile p of Inl e \<Rightarrow> False | Inr re \<Rightarrow> contains_cell re (r col)))"

text \<open>
  A filter parameter can be applied to the table: it is unset or empty, or its column
  is a text column of the table and its pattern compiles.
\<close>

definition filter_applies :: "dataframe \<Rightarrow> string \<Rightarrow> string option \<Rightarrow> bool" where
  "filter_applies df col pat =
     (case pat of
        None \<Rightarrow> True
      | Some p \<Rightarrow>
          p = [] \<or> (map_of (columns df) col = Some ObjectDtype \<and> \<not> isl (re_compile p)))"



text \<open>The rows whose INSID cell is the integer \<open>i\<close>, in the order of the table.\<close>

definition matching_insid :: "dataframe \<Rightarrow> int \<Rightarrow> row list" where
  "matching_insid df i = filter (\<lambda>r. r ''INSID'' = IntV i) (rows df)"

text \<open>The distinct integers that occur in the INSID column.\<close>

fun int_of_cell :: "cell \<Rightarrow> int option" where
  "int_of_cell (IntV i) = Some i"
| "int_of_cell c = None"

definition insid_values :: "dataframe \<Rightarrow> int list" where
  "insid_values df = remdups (List.map_filter (\<lambda>r. int_of_cell (r ''INSID'')) (rows df))"

text \<open>The records GET /records/{insid} answers with; none when it answers with an error.\<close>

definition data_by_insid :: "dataframe \<Rightarrow> int \<Rightarrow> record_dict list" where
  "data_by_insid df i =
     (case get_records_by_insid df (Given i) of Inl e \<Rightarrow> [] | Inr r \<Rightarrow> data_i r)"

text \<open>The cells of a column, in the order of the rows.\<close>

definition column_cells :: "dataframe \<Rightarrow> string \<Rightarrow> cell list" where
  "column_cells df c = map (\<lambda>r. r c) (rows df)"

text \<open>
  The elements of a list at the positions where an element occurs for the first time,
  in the order of the positions.
\<close>

definition first_occurrences :: "'a list \<Rightarrow> 'a list" where
  "first_occurrences xs =
     map ((!) xs) (filter (\<lambda>i. xs ! i \<notin> set (take i xs)) [0..<length xs])"

subsection \<open>An example table\<close>

text \<open>
  Three records with INSID 1, 1, 2 and the names Alpha U, Alpha College and Beta Inst;
  the second has no credential description.
\<close>

definition mk_row :: "(string \<times> cell) list \<Rightarrow> row" where
  "mk_row kv c = (case map_of kv c of Some v \<Rightarrow> v | None \<Rightarrow> NaN)"

definition example_columns :: "(string \<times> dtype) list" where
  "example_columns =
     [(''INSID'', NumericDtype), (''INSNAME'', ObjectDtype),
      (''CREDDESC'', ObjectDtype), (''CREDLEV'', NumericDtype)]"

definition alpha_u :: record_dict where
  "alpha_u = [(''INSID'', IntV 1), (''INSNAME'', StrV ''Alpha U''),
              (''CREDDESC'', StrV ''BSc''), (''CREDLEV'', IntV 3)]"

definition alpha_college :: record_dict where
  "alpha_college = [(''INSID'', IntV 1), (''INSNAME'', StrV ''Alpha College''),
                    (''CREDDESC'', NaN), (''CREDLEV'', IntV 5)]"

definition beta_inst :: record_dict where
  "beta_inst = [(''INSID'', IntV 2), (''INSNAME'', StrV ''Beta Inst''),
                (''CREDDESC'', StrV ''Diploma''), (''CREDLEV'', IntV 3)]"

definition example_df :: dataframe where
  "example_df = \<lparr>columns = example_columns,
                  rows = [mk_row alpha_u, mk_row alpha_college, mk_row beta_inst]\<rparr>"

text \<open>A table with repeated and missing names, descriptions and levels.\<close>

definition levels_df :: dataframe where
  "levels_df = \<lparr>columns = example_columns,
     rows = [mk_row [(''INSNAME'', StrV ''A''), (''CREDDESC'', StrV ''x''), (''CREDLEV'', IntV 5)],
             mk_row [(''INSNAME'', NaN), (''CREDDESC'', StrV ''x''), (''CREDLEV'', IntV 3)],
             mk_row [(''INSNAME'', StrV ''B''), (''CREDDESC'', StrV ''y''), (''CREDLEV'', IntV 5)],
             mk_row [(''INSNAME'', StrV ''A''), (''CREDDESC'', NaN), (''CREDLEV'', NaN)],
             mk_row [(''INSNAME'', StrV ''B''), (''CREDDESC'', StrV ''z''), (''CREDLEV'', IntV 3)]]\<rparr>"

section \<open>Properties\<close>

lemmas example_defs = example_df_def example_columns_def alpha_u_def alpha_college_def
  beta_inst_def mk_row_def


subsection \<open>Masks and filters\<close>

lemma zip_mask: "map fst (filter snd (zip xs (map P xs))) = filter P xs"
  by (induction xs) auto

lemma bool_index_map:
  "bool_index df (map P (map f (rows df))) = df\<lparr>rows := filter (\<lambda>r. P (f r)) (rows df)\<rparr>"
proof -
  have "map fst (filter snd (zip (rows df) (map (\<lambda>r. P (f r)) (rows df)))) =
        filter (\<lambda>r. P (f r)) (rows df)"
    by (rule zip_mask)
  then show ?thesis by (simp add: bool_index_def comp_def)
qed

lemma filter_contains_Inr:
  assumes "filter_contains df col pat = Inr f"
  shows "f = df\<lparr>rows := filter (keeps col pat) (rows df)\<rparr>"
proof (cases pat)
  case None
  with assms show ?thesis by (simp add: filter_contains_def keeps_def)
next
  case (Some p)
  show ?thesis
  proof (cases "p = []")
    case True
    with Some assms show ?thesis by (simp add: filter_contains_def keeps_def)
  next
    case False
    from assms Some False obtain dt where dt: "map_of (columns df) col = Some dt"
      by (auto simp: filter_contains_def getitem_def split: option.splits)
    from assms Some False dt obtain re where re: "re_compile p = Inr re" and o: "dt = ObjectDtype"
      by (auto simp: filter_contains_def getitem_def str_contains_def split: dtype.splits sum.splits)
    have k: "keeps col pat = (\<lambda>r. contains_cell re (r col))"
      using Some False re by (auto simp: keeps_def fun_eq_iff)
    from assms Some False dt re o
    have "f = bool_index df (map (contains_cell re) (map (\<lambda>r. r col) (rows df)))"
      by (simp add: filter_contains_def getitem_def str_contains_def)
    then show ?thesis
      using bool_index_map [of df "contains_cell re" "\<lambda>r. r col"] by (simp add: k)
  qed
qed

lemma filter_contains_applies:
  assumes "filter_applies df col pat"
  shows "filter_contains df col pat = Inr (df\<lparr>rows := filter (keeps col pat) (rows df)\<rparr>)"
proof -
  have "\<exists>f. filter_contains df col pat = Inr f"
    using assms
    by (auto simp: filter_applies_def filter_contains_def getitem_def str_contains_def
        split: option.splits sum.splits)
  then show ?thesis using filter_contains_Inr by blast
qed

lemma filter_contains_empty: "filter_contains df col (Some []) = filter_contains df col None"
  by (simp add: filter_contains_def)

subsection \<open>The slice of a page\<close>


subsection \<open>The body of GET /records\<close>

lemma list_records_applies:
  assumes "filter_applies df ''INSNAME'' insname" "filter_applies df ''CREDDESC'' creddesc"
  shows "list_records df pg sz insname creddesc =
         Inr \<lparr>page = pg,
              size_n = length (slice ((pg - 1) * sz) ((pg - 1) * sz + sz)
                 (filter (\<lambda>r. keeps ''INSNAME'' insname r \<and> keeps ''CREDDESC'' creddesc r) (rows df))),
              total_filtered = length
                 (filter (\<lambda>r. keeps ''INSNAME'' insname r \<and> keeps ''CREDDESC'' creddesc r) (rows df)),
              data = map (to_dict (columns df)) (slice ((pg - 1) * sz) ((pg - 1) * sz + sz)
                 (filter (\<lambda>r. keeps ''INSNAME'' insname r \<and> keeps ''CREDDESC'' creddesc r) (rows df)))\<rparr>"
proof -
  let ?f1 = "df\<lparr>rows := filter (keeps ''INSNAME'' insname) (rows df)\<rparr>"
  have 1: "filter_contains df ''INSNAME'' insname = Inr ?f1"
    using assms(1) by (rule filter_contains_applies)
  have "filter_applies ?f1 ''CREDDESC'' creddesc"
    using assms(2) by (simp add: filter_applies_def split: option.splits)
  then have 2: "filter_contains ?f1 ''CREDDESC'' creddesc =
      Inr (?f1\<lparr>rows := filter (keeps ''CREDDESC'' creddesc) (rows ?f1)\<rparr>)"
    by (rule filter_contains_applies)
  have 3: "filter (keeps ''CREDDESC'' creddesc) (filter (keeps ''INSNAME'' insname) (rows df)) =
      filter (\<lambda>r. keeps ''INSNAME'' insname r \<and> keeps ''CREDDESC'' creddesc r) (rows df)"
    by (simp add: conj_commute)
  show ?thesis
    by (simp add: list_records_def 1 2 Let_def to_dict_records_def iloc_def 3)
qed

lemma list_records_Inr:
  assumes "list_records df pg sz insname creddesc = Inr r"
  shows "r = \<lparr>page = pg,
              size_n = length (slice ((pg - 1) * sz) ((pg - 1) * sz + sz)
                 (filter (\<lambda>r. keeps ''INSNAME'' insname r \<and> keeps ''CREDDESC'' creddesc r) (rows df))),
              total_filtered = length
                 (filter (\<lambda>r. keeps ''INSNAME'' insname r \<and> keeps ''CREDDESC'' creddesc r) (rows df)),
              data = map (to_dict (columns df)) (slice ((pg - 1) * sz) ((pg - 1) * sz + sz)
                 (filter (\<lambda>r. keeps ''INSNAME'' insname r \<and> keeps ''CREDDESC'' creddesc r) (rows df)))\<rparr>"
proof -
  from assms obtain f1 where 1: "filter_contains df ''INSNAME'' insname = Inr f1"
    by (auto simp: list_records_def split: sum.splits)
  from assms 1 obtain f2 where 2: "filter_contains f1 ''CREDDESC'' creddesc = Inr f2"
    by (auto simp: list_records_def split: sum.splits)
  have f1: "f1 = df\<lparr>rows := filter (keeps ''INSNAME'' insname) (rows df)\<rparr>"
    using 1 by (rule filter_contains_Inr)
  have f2: "f2 = f1\<lparr>rows := filter (keeps ''CREDDESC'' creddesc) (rows f1)\<rparr>"
    using 2 by (rule filter_contains_Inr)
  have 3: "filter (keeps ''CREDDESC'' creddesc) (filter (keeps ''INSNAME'' insname) (rows df)) =
      filter (\<lambda>r. keeps ''INSNAME'' insname r \<and> keeps ''CREDDESC'' creddesc r) (rows df)"
    by (simp add: conj_commute)
  from assms 1 2 have "r = \<lparr>page = pg,
      size_n = length (to_dict_records (iloc f2 ((pg - 1) * sz) ((pg - 1) * sz + sz))),
      total_filtered = length (rows f2),
      data = to_dict_records (iloc f2 ((pg - 1) * sz) ((pg - 1) * sz + sz))\<rparr>"
    by (simp add: list_records_def Let_def)
  then show ?thesis
    by (simp add: to_dict_records_def iloc_def f1 f2 3)
qed

subsection \<open>Pages and the boundary\<close>





lemma sre_parse_Inl: "sre_parse p = Inl e \<Longrightarrow> e = PatternNotModelled"
  by (induction p arbitrary: e rule: sre_parse.induct)
     (auto split: if_splits list.splits simp: map_sum_def split: sum.splits)

lemma filter_contains_not_422: "filter_contains df col pat \<noteq> Inl RequestValidationError"
  by (auto simp: filter_contains_def getitem_def str_contains_def re_compile_def
      split: option.splits sum.splits dtype.splits dest: sre_parse_Inl)

lemma list_records_not_422: "list_records df pg sz insname creddesc \<noteq> Inl RequestValidationError"
  using filter_contains_not_422
  by (auto simp: list_records_def Let_def split: sum.splits)

section \<open>The claims\<close>

text \<open>
  C9. A filter parameter that is supplied but empty gives the same answer as the
  parameter left unset, for \<open>insname\<close> and for \<open>creddesc\<close>, whatever the table, the
  pagination parameters and the other filter are: the test \<open>if insname:\<close> is false for
  the empty string as it is for \<open>None\<close>, so no row is dropped.
\<close>

theorem empty_filter_is_unset:
  "get_records df p s (Some []) creddesc = get_records df p s None creddesc \<and>
   get_records df p s insname (Some []) = get_records df p s insname None"
  by (simp add: get_records_def list_records_def filter_contains_empty split: sum.splits)



text \<open>
  C6. GET /records answers 422 exactly when \<open>page\<close> or \<open>size\<close> is malformed, \<open>page\<close>
  is below 1, or \<open>size\<close> is below 1 or above 100, whatever the table and the filters
  are (no operation on the table has run); otherwise the body of the handler runs with
  a page of at least 1 and a size between 1 and 100. A malformed \<open>insid\<close> in
  GET /records/{insid} is answered 422 as well.
\<close>

theorem boundary_rejects_invalid:
  "(get_records df p s insname creddesc = Inl RequestValidationError
      \<longleftrightarrow> \<not> (page_ok p \<and> size_ok s)) \<and>
   status_code RequestValidationError = 422 \<and>
   (page_ok p \<and> size_ok s \<longrightarrow>
      (\<exists>pg sz. 1 \<le> pg \<and> 1 \<le> sz \<and> sz \<le> 100 \<and>
         get_records df p s insname creddesc = list_records df pg sz insname creddesc)) \<and>
   get_records_by_insid df Malformed = Inl RequestValidationError"
proof -
  have 1: "\<not> (page_ok p \<and> size_ok s) \<Longrightarrow>
      get_records df p s insname creddesc = Inl RequestValidationError"
    by (auto simp: page_ok_def size_ok_def get_records_def Query_def split: raw_int.splits)
  have 2: "page_ok p \<and> size_ok s \<Longrightarrow>
      \<exists>pg sz. 1 \<le> pg \<and> 1 \<le> sz \<and> sz \<le> 100 \<and>
         get_records df p s insname creddesc = list_records df pg sz insname creddesc"
  proof -
    assume ok: "page_ok p \<and> size_ok s"
    let ?pg = "case p of Given n \<Rightarrow> n | _ \<Rightarrow> 1"
    let ?sz = "case s of Given n \<Rightarrow> n | _ \<Rightarrow> 10"
    from ok have "1 \<le> ?pg" "1 \<le> ?sz" "?sz \<le> 100"
      by (auto simp: page_ok_def size_ok_def split: raw_int.splits)
    moreover from ok
    have "get_records df p s insname creddesc = list_records df ?pg ?sz insname creddesc"
      by (cases p; cases s) (auto simp: page_ok_def size_ok_def get_records_def Query_def)
    ultimately show ?thesis by blast
  qed
  have 3: "page_ok p \<and> size_ok s \<Longrightarrow>
      get_records df p s insname creddesc \<noteq> Inl RequestValidationError"
    using 2 list_records_not_422 by metis
  have 4: "get_records_by_insid df Malformed = Inl RequestValidationError"
    by (simp add: get_records_by_insid_def Path_int_def)
  from 1 2 3 4 show ?thesis by auto
qed

theorem boundary_rejects_invalid_witness:
  "get_records DataFrame_empty (Given 0) (Given 10) (Some ''a'') None = Inl RequestValidationError \<and>
   get_records DataFrame_empty Omitted (Given 101) (Some ''a'') None = Inl RequestValidationError \<and>
   get_records DataFrame_empty Malformed Omitted (Some ''a'') None = Inl RequestValidationError \<and>
   get_records DataFrame_empty (Given 1) (Given 100) (Some ''a'') None \<noteq> Inl RequestValidationError"
  using boundary_rejects_invalid [of DataFrame_empty "Given 0" "Given 10" "Some ''a''" None]
    boundary_rejects_invalid [of DataFrame_empty Omitted "Given 101" "Some ''a''" None]
    boundary_rejects_invalid [of DataFrame_empty Malformed Omitted "Some ''a''" None]
    boundary_rejects_invalid [of DataFrame_empty "Given 1" "Given 100" "Some ''a''" None]
  by (simp add: page_ok_def size_ok_def)

text \<open>
  C7. With no filter, page 1 and a size between 1 and 100 that is at least the number of
  rows of the table, GET /records answers with every row of the table, in the order of
  the table.
\<close>

theorem whole_dataset_on_one_page:
  assumes "1 \<le> sz" and "sz \<le> 100" and "int (length (rows df)) \<le> sz"
  shows "get_records df (Given 1) (Given sz) None None =
           Inr \<lparr>page = 1, size_n = length (rows df), total_filtered = length (rows df),
                data = to_dict_records df\<rparr> \<and>
         get_records df Omitted (Given sz) None None =
           get_records df (Given 1) (Given sz) None None"
proof -
  have "list_records df 1 sz None None =
      Inr \<lparr>page = 1, size_n = length (rows df), total_filtered = length (rows df),
           data = to_dict_records df\<rparr>"
    using assms list_records_applies [of df None None 1 sz]
    by (simp add: filter_applies_def keeps_def slice_def slice_bound_def to_dict_records_def Let_def)
  then show ?thesis
    using assms by (simp add: get_records_def Query_def)
qed

theorem whole_dataset_on_one_page_witness:
  "get_records example_df (Given 1) (Given 3) None None =
     Inr \<lparr>page = 1, size_n = 3, total_filtered = 3,
          data = [alpha_u, alpha_college, beta_inst]\<rparr>"
proof -
  have "to_dict_records example_df = [alpha_u, alpha_college, beta_inst]"
    by (simp add: to_dict_records_def to_dict_def example_defs)
  then show ?thesis
    using whole_dataset_on_one_page [of 3 example_df] by (simp add: example_df_def)
qed

text \<open>
  C5. The requests on the table the program starts with when the file is missing,
  \<open>pd.DataFrame()\<close>, which has no columns: GET /records without a filter answers with
  no record and a total of 0, but GET /records with a filter, GET /records/{insid} and
  GET /stats raise \<open>KeyError\<close> on the column they look up, which the framework answers
  with status 500.
\<close>

theorem missing_file_queries:
  "get_records (load_df None) Omitted Omitted None None =
     Inr \<lparr>page = 1, size_n = 0, total_filtered = 0, data = []\<rparr> \<and>
   get_records (load_df None) Omitted Omitted (Some ''a'') None = Inl (KeyError ''INSNAME'') \<and>
   get_records (load_df None) Omitted Omitted None (Some ''a'') = Inl (KeyError ''CREDDESC'') \<and>
   get_records_by_insid (load_df None) (Given 1) = Inl (KeyError ''INSID'') \<and>
   get_stats (load_df None) = Inl (KeyError ''INSNAME'') \<and>
   status_code (KeyError ''INSID'') = 500 \<and> status_code (KeyError ''INSNAME'') = 500"
  by (simp add: load_df_def DataFrame_empty_def get_records_def Query_def list_records_def
      filter_contains_def getitem_def Let_def iloc_def slice_def to_dict_records_def
      get_records_by_insid_def Path_int_def records_by_insid_def get_stats_def)

subsection \<open>Lookup by INSID\<close>

lemma records_by_insid_eq:
  assumes "map_of (columns df) ''INSID'' = Some dt"
  shows "records_by_insid df i =
     (if matching_insid df i = []
      then Inl (HTTPException 404 (''No records found for INSID '' @ str_int i))
      else Inr \<lparr>insid = i, count_n = length (matching_insid df i),
                data_i = map (to_dict (columns df)) (matching_insid df i)\<rparr>)"
proof -
  have "bool_index df (map (\<lambda>c. c = IntV i) (map (\<lambda>r. r ''INSID'') (rows df))) =
      df\<lparr>rows := matching_insid df i\<rparr>"
    unfolding matching_insid_def by (rule bool_index_map)
  then show ?thesis
    using assms
    by (simp add: records_by_insid_def getitem_def to_dict_records_def Let_def)
qed

lemma mset_partition_by_key:
  assumes "distinct ks"
  shows "mset (concat (map (\<lambda>k. filter (\<lambda>x. f x = Some k) xs) ks)) =
         mset (filter (\<lambda>x. f x \<in> Some ` set ks) xs)"
  using assms
proof (induction ks)
  case Nil
  then show ?case by simp
next
  case (Cons k ks)
  have "mset (filter (\<lambda>x. f x = Some k) xs) + mset (filter (\<lambda>x. f x \<in> Some ` set ks) xs) =
        mset (filter (\<lambda>x. f x \<in> Some ` set (k # ks)) xs)"
    using Cons.prems by (induction xs) auto
  with Cons show ?case by simp
qed

lemma data_by_insid_eq:
  assumes "map_of (columns df) ''INSID'' = Some dt"
  shows "data_by_insid df i = map (to_dict (columns df)) (matching_insid df i)"
  using records_by_insid_eq [OF assms, of i]
  by (simp add: data_by_insid_def get_records_by_insid_def Path_int_def)



text \<open>
  C8. On a table that has an INSID column in which every cell is an integer, the answers
  of GET /records/{insid} for the distinct INSID values of the table, put together,
  hold every record of the table exactly as many times as the table does: each lookup
  succeeds, and as a multiset their records are the records of the table.
\<close>

theorem by_insid_partitions_dataset:
  assumes "map_of (columns df) ''INSID'' = Some dt"
    and "\<forall>r \<in> set (rows df). \<exists>i. r ''INSID'' = IntV i"
  shows "mset (concat (map (data_by_insid df) (insid_values df))) = mset (to_dict_records df) \<and>
         distinct (insid_values df) \<and>
         (\<forall>i \<in> set (insid_values df). \<exists>r. get_records_by_insid df (Given i) = Inr r)"
proof -
  let ?key = "\<lambda>r. int_of_cell (r ''INSID'')"
  let ?ks = "insid_values df"
  have d: "distinct ?ks" by (simp add: insid_values_def)
  have m: "matching_insid df i = filter (\<lambda>r. ?key r = Some i) (rows df)" for i
  proof -
    have "(r ''INSID'' = IntV i) = (?key r = Some i)" for r
      by (cases "r ''INSID''") auto
    then show ?thesis by (simp add: matching_insid_def)
  qed
  have all: "?key r \<in> Some ` set ?ks" if "r \<in> set (rows df)" for r
  proof -
    from that assms(2) obtain i where "r ''INSID'' = IntV i" by blast
    with that show ?thesis
      by (force simp: insid_values_def List.map_filter_def)
  qed
  have e: "data_by_insid df =
      (\<lambda>i. map (to_dict (columns df)) (filter (\<lambda>r. ?key r = Some i) (rows df)))"
    by (simp add: fun_eq_iff data_by_insid_eq [OF assms(1)] m)
  have "filter (\<lambda>r. ?key r \<in> Some ` set ?ks) (rows df) = rows df"
    using all by (simp add: filter_id_conv)
  with mset_partition_by_key [OF d, of ?key "rows df"]
  have b: "mset (concat (map (\<lambda>k. filter (\<lambda>r. ?key r = Some k) (rows df)) ?ks)) = mset (rows df)"
    by (simp only:)
  have "concat (map (data_by_insid df) ?ks) =
      map (to_dict (columns df)) (concat (map (\<lambda>k. filter (\<lambda>r. ?key r = Some k) (rows df)) ?ks))"
    unfolding e by (simp add: map_concat comp_def)
  then have "mset (concat (map (data_by_insid df) ?ks)) =
      image_mset (to_dict (columns df))
        (mset (concat (map (\<lambda>k. filter (\<lambda>r. ?key r = Some k) (rows df)) ?ks)))"
    by (simp only: mset_map)
  then have p: "mset (concat (map (data_by_insid df) ?ks)) = mset (to_dict_records df)"
    unfolding b by (simp add: to_dict_records_def)
  have s: "\<forall>i \<in> set ?ks. \<exists>r. get_records_by_insid df (Given i) = Inr r"
  proof
    fix i assume "i \<in> set ?ks"
    then obtain r where "r \<in> set (rows df)" "?key r = Some i"
      by (auto simp: insid_values_def List.map_filter_def)
    then have "matching_insid df i \<noteq> []"
      by (auto simp: m filter_empty_conv)
    then show "\<exists>r. get_records_by_insid df (Given i) = Inr r"
      using records_by_insid_eq [OF assms(1), of i]
      by (simp add: get_records_by_insid_def Path_int_def)
  qed
  from p d s show ?thesis by blast
qed

theorem by_insid_partitions_dataset_witness:
  "insid_values example_df = [1, 2] \<and>
   data_by_insid example_df 1 @ data_by_insid example_df 2 = [alpha_u, alpha_college, beta_inst] \<and>
   mset (data_by_insid example_df 1 @ data_by_insid example_df 2) =
     mset (to_dict_records example_df)"
proof -
  have c: "map_of (columns example_df) ''INSID'' = Some NumericDtype"
    by (simp add: example_defs)
  have a: "\<forall>r \<in> set (rows example_df). \<exists>i. r ''INSID'' = IntV i"
    by (simp add: example_defs)
  have v: "insid_values example_df = [1, 2]"
    by (simp add: insid_values_def example_defs List.map_filter_def)
  have m: "matching_insid example_df 1 = [mk_row alpha_u, mk_row alpha_college]"
    "matching_insid example_df 2 = [mk_row beta_inst]"
    by (simp_all add: matching_insid_def example_defs)
  have t: "to_dict (columns example_df) (mk_row alpha_u) = alpha_u"
    "to_dict (columns example_df) (mk_row alpha_college) = alpha_college"
    "to_dict (columns example_df) (mk_row beta_inst) = beta_inst"
    by (simp_all add: to_dict_def example_defs)
  have d1: "data_by_insid example_df 1 = [alpha_u, alpha_college]"
    by (simp add: data_by_insid_eq [OF c] m t)
  have d2: "data_by_insid example_df 2 = [beta_inst]"
    by (simp add: data_by_insid_eq [OF c] m t)
  show ?thesis
    using by_insid_partitions_dataset [OF c a] by (simp add: v d1 d2)
qed

subsection \<open>Unique values\<close>

lemma set_unique_from: "set (unique_from seen xs) = set xs - set seen"
  by (induction xs arbitrary: seen) auto

lemma distinct_unique_from: "distinct (unique_from seen xs)"
  by (induction xs arbitrary: seen) (auto simp: set_unique_from)

lemma upt_0_Suc: "[0..<Suc n] = 0 # map Suc [0..<n]"
  by (simp add: upt_conv_Cons map_Suc_upt del: upt_Suc)

lemma unique_from_positions:
  "unique_from seen xs =
     map ((!) xs) (filter (\<lambda>i. xs ! i \<notin> set seen \<and> xs ! i \<notin> set (take i xs)) [0..<length xs])"
proof (induction xs arbitrary: seen)
  case Nil
  then show ?case by simp
next
  case (Cons x xs)
  have tl: "map ((!) (x # xs))
        (filter (\<lambda>i. (x # xs) ! i \<notin> set seen \<and> (x # xs) ! i \<notin> set (take i (x # xs)))
           (map Suc [0..<length xs])) =
      map ((!) xs) (filter (\<lambda>i. xs ! i \<notin> set (x # seen) \<and> xs ! i \<notin> set (take i xs))
           [0..<length xs])"
    by (simp add: filter_map comp_def conj_ac)
  show ?case
  proof (cases "x \<in> set seen")
    case True
    then have "(\<lambda>i. xs ! i \<notin> set (x # seen) \<and> xs ! i \<notin> set (take i xs)) =
        (\<lambda>i. xs ! i \<notin> set seen \<and> xs ! i \<notin> set (take i xs))"
      by auto
    with True tl Cons.IH [of seen] show ?thesis
      by (simp add: upt_0_Suc del: upt_Suc)
  next
    case False
    with tl Cons.IH [of "x # seen"] show ?thesis
      by (simp add: upt_0_Suc del: upt_Suc)
  qed
qed

lemma unique_first_occurrences: "unique xs = first_occurrences xs"
  by (simp add: unique_def first_occurrences_def unique_from_positions)

lemma nunique_card: "nunique xs = card (set xs - {NaN})"
proof -
  have "distinct (filter (\<lambda>c. c \<noteq> NaN) (unique xs))"
    by (simp add: unique_def distinct_unique_from)
  then have "card (set (filter (\<lambda>c. c \<noteq> NaN) (unique xs))) =
      length (filter (\<lambda>c. c \<noteq> NaN) (unique xs))"
    by (rule distinct_card)
  then have "nunique xs = card (set (filter (\<lambda>c. c \<noteq> NaN) (unique xs)))"
    by (simp only: nunique_def)
  also have "set (filter (\<lambda>c. c \<noteq> NaN) (unique xs)) = set xs - {NaN}"
    by (auto simp: unique_def set_unique_from)
  finally show ?thesis .
qed

text \<open>
  C4. On a table that has the columns INSNAME, CREDDESC and CREDLEV, GET /stats answers
  with the number of distinct values of the INSNAME column, the number of distinct values
  of the CREDDESC column, and the distinct cells of the CREDLEV column in the order of
  their first occurrence in the table: each once, none added, not sorted. A missing cell
  is not a value for the two counts (\<open>nunique\<close> drops it); a missing CREDLEV cell, if
  there is one, stands once in the list, at the place of its first occurrence
  (\<open>unique\<close> keeps it).
\<close>

theorem stats_counts_and_levels:
  assumes "map_of (columns df) ''INSNAME'' = Some d1"
    and "map_of (columns df) ''CREDDESC'' = Some d2"
    and "map_of (columns df) ''CREDLEV'' = Some d3"
  shows "get_stats df =
           Inr \<lparr>unique_institutions = card (set (column_cells df ''INSNAME'') - {NaN}),
                unique_credentials = card (set (column_cells df ''CREDDESC'') - {NaN}),
                credential_levels = first_occurrences (column_cells df ''CREDLEV'')\<rparr> \<and>
         distinct (first_occurrences (column_cells df ''CREDLEV'')) \<and>
         set (first_occurrences (column_cells df ''CREDLEV'')) = set (column_cells df ''CREDLEV'')"
proof -
  have "get_stats df =
      Inr \<lparr>unique_institutions = nunique (column_cells df ''INSNAME''),
           unique_credentials = nunique (column_cells df ''CREDDESC''),
           credential_levels = unique (column_cells df ''CREDLEV'')\<rparr>"
    using assms by (simp add: get_stats_def getitem_def column_cells_def)
  moreover have "distinct (unique (column_cells df ''CREDLEV''))"
    by (simp add: unique_def distinct_unique_from)
  moreover have "set (unique (column_cells df ''CREDLEV'')) = set (column_cells df ''CREDLEV'')"
    by (simp add: unique_def set_unique_from)
  ultimately show ?thesis
    by (simp add: nunique_card unique_first_occurrences)
qed

theorem stats_counts_and_levels_witness:
  "get_stats levels_df =
     Inr \<lparr>unique_institutions = 2, unique_credentials = 3,
          credential_levels = [IntV 5, IntV 3, NaN]\<rparr>"
proof -
  have c: "map_of (columns levels_df) ''INSNAME'' = Some ObjectDtype"
    "map_of (columns levels_df) ''CREDDESC'' = Some ObjectDtype"
    "map_of (columns levels_df) ''CREDLEV'' = Some NumericDtype"
    by (simp_all add: levels_df_def example_columns_def)
  have i: "column_cells levels_df ''INSNAME'' = [StrV ''A'', NaN, StrV ''B'', StrV ''A'', StrV ''B'']"
    by (simp add: column_cells_def levels_df_def mk_row_def)
  have d: "column_cells levels_df ''CREDDESC'' =
      [StrV ''x'', StrV ''x'', StrV ''y'', NaN, StrV ''z'']"
    by (simp add: column_cells_def levels_df_def mk_row_def)
  have l: "column_cells levels_df ''CREDLEV'' = [IntV 5, IntV 3, IntV 5, NaN, IntV 3]"
    by (simp add: column_cells_def levels_df_def mk_row_def)
  have f: "first_occurrences [IntV 5, IntV 3, IntV 5, NaN, IntV 3] = [IntV 5, IntV 3, NaN]"
    unfolding unique_first_occurrences [symmetric] by (simp add: unique_def)
  have n1: "card (set [StrV ''A'', NaN, StrV ''B'', StrV ''A'', StrV ''B''] - {NaN}) = 2"
    unfolding nunique_card [symmetric] by (simp add: nunique_def unique_def)
  have n2: "card (set [StrV ''x'', StrV ''x'', StrV ''y'', NaN, StrV ''z''] - {NaN}) = 3"
    unfolding nunique_card [symmetric] by (simp add: nunique_def unique_def)
  show ?thesis
    using stats_counts_and_levels [OF c] unfolding i d l f n1 n2 by simp
qed

end
